theory Spec2Isabelle
  imports Main "HOL-Library.Word"
begin

unbundle bit_operations_syntax

section \<open>JavaScript numbers and 32-bit operators\<close>

text \<open>
  Every number handled by \<^verbatim>\<open>virgule.js\<close> is an integer of at most 34 bits, on which
  JavaScript's double arithmetic is exact: numbers are modelled as \<^typ>\<open>int\<close>. The bitwise
  operators first reduce their operands to 32 bits, here by \<open>word_of_int\<close>, and give a
  signed 32-bit result (\<open>sint\<close>), except \<^verbatim>\<open>>>>\<close>, whose result is unsigned
  (\<open>uint\<close>); the shift count is the right operand reduced to its low 5 bits.
\<close>

definition ToUint32 :: "int \<Rightarrow> int" where
  "ToUint32 v = uint (word_of_int v :: 32 word)"

definition shiftCount :: "int \<Rightarrow> nat" where
  "shiftCount b = nat (ToUint32 b mod 32)"

text \<open>\<^verbatim>\<open>a << b\<close>\<close>
definition js_shl :: "int \<Rightarrow> int \<Rightarrow> int" where
  "js_shl a b = sint (push_bit (shiftCount b) (word_of_int a :: 32 word))"

text \<open>\<^verbatim>\<open>a >> b\<close>\<close>
definition js_sar :: "int \<Rightarrow> int \<Rightarrow> int" where
  "js_sar a b = sint (signed_drop_bit (shiftCount b) (word_of_int a :: 32 word))"

text \<open>\<^verbatim>\<open>a >>> b\<close>\<close>
definition js_shr :: "int \<Rightarrow> int \<Rightarrow> int" where
  "js_shr a b = uint (drop_bit (shiftCount b) (word_of_int a :: 32 word))"

text \<open>\<^verbatim>\<open>a | b\<close>, \<^verbatim>\<open>a & b\<close>, \<^verbatim>\<open>a ^ b\<close>\<close>
definition js_or :: "int \<Rightarrow> int \<Rightarrow> int" where
  "js_or a b = sint ((word_of_int a :: 32 word) OR word_of_int b)"

definition js_and :: "int \<Rightarrow> int \<Rightarrow> int" where
  "js_and a b = sint ((word_of_int a :: 32 word) AND word_of_int b)"

definition js_xor :: "int \<Rightarrow> int \<Rightarrow> int" where
  "js_xor a b = sint ((word_of_int a :: 32 word) XOR word_of_int b)"

section \<open>The helpers of \<^verbatim>\<open>int32.js\<close>\<close>

text \<open>
  The module \<^verbatim>\<open>int32.js\<close> is imported by \<^verbatim>\<open>virgule.js\<close> and is not part of the
  sources. Its four functions used here follow section 4.1 of the specification.
\<close>

text \<open>
  Modelled from the spec: \<^verbatim>\<open>int32.signed\<close> is missing from the sources;
  \<^verbatim>\<open>signed(word)\<close> reinterprets the low 32 bits of an arbitrary integer as
  two's-complement signed 32-bit.
\<close>

definition int32_signed :: "int \<Rightarrow> int" where
  "int32_signed v = sint (word_of_int v :: 32 word)"

text \<open>
  Modelled from the spec: \<^verbatim>\<open>int32.unsigned\<close> is missing from the sources;
  \<^verbatim>\<open>unsigned(word)\<close> reinterprets the low 32 bits as unsigned 32-bit, in the range
  0..2^32-1.
\<close>

definition int32_unsigned :: "int \<Rightarrow> int" where
  "int32_unsigned v = uint (word_of_int v :: 32 word)"

text \<open>
  Modelled from the spec: \<^verbatim>\<open>int32.unsignedSlice\<close> is missing from the sources;
  \<^verbatim>\<open>unsignedSlice(value, hi, lo)\<close> extracts the bits lo..hi inclusive and
  zero-extends them.
\<close>

definition int32_unsignedSlice :: "int \<Rightarrow> int \<Rightarrow> int \<Rightarrow> int" where
  "int32_unsignedSlice v hi lo = take_bit (nat (hi - lo + 1)) (drop_bit (nat lo) v)"

text \<open>
  Modelled from the spec: \<^verbatim>\<open>int32.signedSlice\<close> is missing from the sources;
  \<^verbatim>\<open>signedSlice(value, hi, lo)\<close> extracts the bits lo..hi inclusive and
  sign-extends them from bit hi.
\<close>

definition int32_signedSlice :: "int \<Rightarrow> int \<Rightarrow> int \<Rightarrow> int" where
  "int32_signedSlice v hi lo = signed_take_bit (nat (hi - lo)) (drop_bit (nat lo) v)"

section \<open>Devices\<close>

text \<open>
  A device object has the fields of class \<^verbatim>\<open>Device\<close> and the state and methods of its
  own class. \<^verbatim>\<open>Device\<close> itself keeps the abstract defaults, \<^verbatim>\<open>Memory\<close> adds the byte
  array \<^verbatim>\<open>data\<close>. Any other subclass is a \<open>Peripheral\<close>: a private state with the four
  methods a subclass is meant to override (\<^verbatim>\<open>localRead\<close>, \<^verbatim>\<open>localWrite\<close>, \<^verbatim>\<open>reset\<close>,
  \<^verbatim>\<open>irq\<close>); reading or writing it may change its state, querying \<^verbatim>\<open>irq\<close> does not.
\<close>

record 's methods =
  m_localRead :: "'s \<Rightarrow> int \<Rightarrow> int \<Rightarrow> int \<times> 's"
  m_localWrite :: "'s \<Rightarrow> int \<Rightarrow> int \<Rightarrow> int \<Rightarrow> 's"
  m_reset :: "'s \<Rightarrow> 's"
  m_irq :: "'s \<Rightarrow> bool"

datatype 's dev_class =
    Abstract
  | Memory (data: "8 word list")
  | Peripheral "'s methods" 's

record 's Device =
  dev_size :: int
  firstAddress :: int
  lastAddress :: int
  sub :: "'s dev_class"

text \<open>
  The constructors of \<^verbatim>\<open>Device\<close> and of \<^verbatim>\<open>Memory\<close>. \<^verbatim>\<open>new Uint8Array(size)\<close> is
  a zero-filled array of \<open>size\<close> bytes; it throws for a negative size, a case left
  out here: the sizes below are never negative.
\<close>

definition Device_new :: "int \<Rightarrow> int \<Rightarrow> 's Device" where
  "Device_new first sz =
     \<lparr>dev_size = sz,
      firstAddress = int32_unsigned first,
      lastAddress = int32_unsigned (first + sz - 1),
      sub = Abstract\<rparr>"

definition Memory_new :: "int \<Rightarrow> int \<Rightarrow> 's Device" where
  "Memory_new first sz = (Device_new first sz)\<lparr>sub := Memory (replicate (nat sz) 0)\<rparr>"

definition Device_accepts :: "'s Device \<Rightarrow> int \<Rightarrow> int \<Rightarrow> bool" where
  "Device_accepts d address sz \<longleftrightarrow>
     address \<ge> firstAddress d \<and> int32_unsigned (address + sz - 1) \<le> lastAddress d"

subsection \<open>The byte array of a memory\<close>

text \<open>
  Reading a \<^verbatim>\<open>Uint8Array\<close> outside its bounds gives \<^verbatim>\<open>undefined\<close>, which \<^verbatim>\<open><<\<close>
  converts to 0; writing outside its bounds does nothing; a stored number is reduced to
  8 bits.
\<close>

definition data_get :: "8 word list \<Rightarrow> int \<Rightarrow> int" where
  "data_get bytes k = (if 0 \<le> k \<and> k < int (length bytes) then uint (bytes ! nat k) else 0)"

definition data_set :: "8 word list \<Rightarrow> int \<Rightarrow> int \<Rightarrow> 8 word list" where
  "data_set bytes k v =
     (if 0 \<le> k \<and> k < int (length bytes) then bytes[nat k := word_of_int v] else bytes)"

function localRead_loop :: "8 word list \<Rightarrow> int \<Rightarrow> int \<Rightarrow> int \<Rightarrow> int \<Rightarrow> int" where
  "localRead_loop bytes address sz i result =
     (if i < sz
      then localRead_loop bytes address sz (i + 1)
             (js_or result (js_shl (data_get bytes (address + i)) (8 * i)))
      else result)"
  by pat_completeness auto
termination
  by (relation "measure (\<lambda>(bytes, address, sz, i, result). nat (sz - i))") auto

declare localRead_loop.simps [simp del]

definition Memory_localRead :: "8 word list \<Rightarrow> int \<Rightarrow> int \<Rightarrow> int" where
  "Memory_localRead bytes address sz = localRead_loop bytes address sz 0 0"

function localWrite_loop :: "8 word list \<Rightarrow> int \<Rightarrow> int \<Rightarrow> int \<Rightarrow> int \<Rightarrow> 8 word list" where
  "localWrite_loop bytes address sz v i =
     (if i < sz
      then localWrite_loop
             (data_set bytes (address + i) (int32_unsignedSlice v (8 * i + 7) (8 * i)))
             address sz v (i + 1)
      else bytes)"
  by pat_completeness auto
termination
  by (relation "measure (\<lambda>(bytes, address, sz, v, i). nat (sz - i))") auto

declare localWrite_loop.simps [simp del]

definition Memory_localWrite :: "8 word list \<Rightarrow> int \<Rightarrow> int \<Rightarrow> int \<Rightarrow> 8 word list" where
  "Memory_localWrite bytes address sz v = localWrite_loop bytes address sz v 0"

subsection \<open>Method dispatch\<close>

definition localRead :: "'s Device \<Rightarrow> int \<Rightarrow> int \<Rightarrow> int \<times> 's Device" where
  "localRead d address sz =
     (case sub d of
        Abstract \<Rightarrow> (0, d)
      | Memory bytes \<Rightarrow> (Memory_localRead bytes address sz, d)
      | Peripheral m st \<Rightarrow>
          (fst (m_localRead m st address sz),
           d\<lparr>sub := Peripheral m (snd (m_localRead m st address sz))\<rparr>))"

definition localWrite :: "'s Device \<Rightarrow> int \<Rightarrow> int \<Rightarrow> int \<Rightarrow> 's Device" where
  "localWrite d address sz v =
     (case sub d of
        Abstract \<Rightarrow> d
      | Memory bytes \<Rightarrow> d\<lparr>sub := Memory (Memory_localWrite bytes address sz v)\<rparr>
      | Peripheral m st \<Rightarrow> d\<lparr>sub := Peripheral m (m_localWrite m st address sz v)\<rparr>)"

definition Device_irq :: "'s Device \<Rightarrow> bool" where
  "Device_irq d = (case sub d of Peripheral m st \<Rightarrow> m_irq m st | _ \<Rightarrow> False)"

definition Device_reset :: "'s Device \<Rightarrow> 's Device" where
  "Device_reset d =
     (case sub d of Peripheral m st \<Rightarrow> d\<lparr>sub := Peripheral m (m_reset m st)\<rparr> | _ \<Rightarrow> d)"

definition Device_read :: "'s Device \<Rightarrow> int \<Rightarrow> int \<Rightarrow> bool \<Rightarrow> int \<times> 's Device" where
  "Device_read d address sz is_signed =
     (let (raw, d') = localRead d (int32_unsigned (address - firstAddress d)) sz
      in (if is_signed then int32_signedSlice raw (sz * 8 - 1) 0
          else int32_unsignedSlice raw (sz * 8 - 1) 0, d'))"

definition Device_write :: "'s Device \<Rightarrow> int \<Rightarrow> int \<Rightarrow> int \<Rightarrow> 's Device" where
  "Device_write d address sz v =
     localWrite d (int32_unsigned (address - firstAddress d)) sz v"

section \<open>The bus\<close>

text \<open>
  The bus holds references to its devices. A reference is the position of the device in
  \<open>devices\<close>: each registered device is an object of its own.
\<close>

record 's Bus =
  devices :: "'s Device list"
  error :: bool

definition Bus_new :: "'s Bus" where
  "Bus_new = \<lparr>devices = [], error = False\<rparr>"

definition Bus_reset :: "'s Bus \<Rightarrow> 's Bus" where
  "Bus_reset bus = bus\<lparr>devices := map Device_reset (devices bus)\<rparr>"

definition addDevice :: "'s Bus \<Rightarrow> 's Device \<Rightarrow> 's Bus" where
  "addDevice bus device = bus\<lparr>devices := devices bus @ [device]\<rparr>"

definition getDevices :: "'s Bus \<Rightarrow> int \<Rightarrow> int \<Rightarrow> nat list" where
  "getDevices bus address sz =
     filter (\<lambda>i. Device_accepts (devices bus ! i) (int32_unsigned address) sz)
       [0 ..< length (devices bus)]"

definition Bus_read :: "'s Bus \<Rightarrow> int \<Rightarrow> int \<Rightarrow> bool \<Rightarrow> int \<times> 's Bus" where
  "Bus_read bus address sz is_signed =
     (let address = int32_unsigned address;
          devs = getDevices bus address sz;
          bus = bus\<lparr>error := (devs = [])\<rparr>
      in if error bus then (0, bus)
         else (fst (Device_read (devices bus ! hd devs) address sz is_signed),
               bus\<lparr>devices := (devices bus)
                  [hd devs := snd (Device_read (devices bus ! hd devs) address sz is_signed)]\<rparr>))"

fun write_loop :: "nat list \<Rightarrow> 's Device list \<Rightarrow> int \<Rightarrow> int \<Rightarrow> int \<Rightarrow> 's Device list" where
  "write_loop [] ds address sz v = ds"
| "write_loop (d # devs) ds address sz v =
     write_loop devs (ds[d := Device_write (ds ! d) address sz v]) address sz v"

definition Bus_write :: "'s Bus \<Rightarrow> int \<Rightarrow> int \<Rightarrow> int \<Rightarrow> 's Bus" where
  "Bus_write bus address sz v =
     (let devs = getDevices bus address sz;
          bus = bus\<lparr>error := (devs = [])\<rparr>
      in bus\<lparr>devices := write_loop devs (devices bus) address sz v\<rparr>)"

definition Bus_irq :: "'s Bus \<Rightarrow> bool" where
  "Bus_irq bus = list_ex Device_irq (devices bus)"

section \<open>The core\<close>

text \<open>
  The decoder \<^verbatim>\<open>bin.fromWord\<close> of \<^verbatim>\<open>binary.js\<close> is not part of the sources: the step
  function takes it as a parameter. It returns a record with the fields read by
  \<^verbatim>\<open>step\<close>; the control fields are strings, compared with the tags of each
  \<^verbatim>\<open>switch\<close>, and a string that matches no tag (an absent field) selects no case.
\<close>

record instr =
  name :: string
  rs1 :: int
  rs2 :: int
  rd :: int
  imm :: int
  src1 :: string
  src2 :: string
  aluOp :: string
  branch :: string
  wbMem :: string

text \<open>The object returned by \<^verbatim>\<open>step\<close>.\<close>

record trace =
  t_instr :: instr
  t_pc :: int
  t_incPc :: int
  t_irq :: bool
  t_x1 :: int
  t_x2 :: int
  t_a :: int
  t_b :: int
  t_r :: int
  t_l :: int
  t_taken :: bool
  t_fetchError :: bool
  t_loadStoreError :: bool

text \<open>
  The fields of a \<^verbatim>\<open>Virgule\<close> object. \<^verbatim>\<open>irqState\<close> is assigned by \<^verbatim>\<open>step\<close> only:
  it is \<^verbatim>\<open>undefined\<close> (\<open>None\<close>) until then, which \<^verbatim>\<open>!\<close> treats as false.
\<close>

record 's Virgule =
  x_regs :: "int list"
  pc :: int
  mepc :: int
  irqState :: "bool option"
  bus :: "'s Bus"

function reset_loop :: "int list \<Rightarrow> nat \<Rightarrow> int list" where
  "reset_loop regs i = (if i < length regs then reset_loop (regs[i := 0]) (i + 1) else regs)"
  by pat_completeness auto
termination
  by (relation "measure (\<lambda>(regs, i). length regs - i)") auto

declare reset_loop.simps [simp del]

definition Virgule_reset :: "'s Virgule \<Rightarrow> 's Virgule" where
  "Virgule_reset s = s\<lparr>x_regs := reset_loop (x_regs s) 0, pc := 0, mepc := 0\<rparr>"

text \<open>
  The constructor: \<^verbatim>\<open>new Array(nx)\<close> has \<open>nx\<close> empty slots, which \<^verbatim>\<open>reset\<close> fills
  with zeros whatever they hold.
\<close>

definition Virgule_new :: "nat \<Rightarrow> 's Bus \<Rightarrow> 's Virgule" where
  "Virgule_new nx b =
     Virgule_reset \<lparr>x_regs = replicate nx 0, pc = 0, mepc = 0, irqState = None, bus = b\<rparr>"

definition setX :: "'s Virgule \<Rightarrow> int \<Rightarrow> int \<Rightarrow> 's Virgule" where
  "setX s index v =
     (if index > 0 \<and> index < int (length (x_regs s))
      then s\<lparr>x_regs := (x_regs s)[nat index := int32_signed v]\<rparr>
      else s)"

definition getX :: "'s Virgule \<Rightarrow> int \<Rightarrow> int" where
  "getX s index =
     (if index > 0 \<and> index < int (length (x_regs s)) then x_regs s ! nat index else 0)"

text \<open>\<^verbatim>\<open>~3\<close> is \<open>-4\<close>.\<close>

definition setPc :: "'s Virgule \<Rightarrow> int \<Rightarrow> 's Virgule" where
  "setPc s v = s\<lparr>pc := int32_unsigned (js_and v (- 4))\<rparr>"

subsection \<open>The stages of \<^verbatim>\<open>step\<close>\<close>

definition alu_a :: "instr \<Rightarrow> int \<Rightarrow> int \<Rightarrow> int" where
  "alu_a i cur_pc x1 =
     (if src1 i = ''pc'' then cur_pc else if src1 i = ''x1'' then x1 else 0)"

definition alu_b :: "instr \<Rightarrow> int \<Rightarrow> int" where
  "alu_b i x2 =
     (if src2 i = ''imm'' then imm i else if src2 i = ''x2'' then x2 else 0)"

definition alu_r :: "instr \<Rightarrow> int \<Rightarrow> int \<Rightarrow> int" where
  "alu_r i a b =
     (if aluOp i = ''b'' then b
      else if aluOp i = ''add'' then int32_signed (a + b)
      else if aluOp i = ''sll'' then js_shl a b
      else if aluOp i = ''slt'' then (if int32_signed a < int32_signed b then 1 else 0)
      else if aluOp i = ''sltu'' then (if int32_unsigned a < int32_unsigned b then 1 else 0)
      else if aluOp i = ''xor'' then js_xor a b
      else if aluOp i = ''srl'' then js_shr a b
      else if aluOp i = ''sra'' then js_sar a b
      else if aluOp i = ''or'' then js_or a b
      else if aluOp i = ''and'' then js_and a b
      else if aluOp i = ''sub'' then int32_signed (a - b)
      else 0)"

definition branch_taken :: "instr \<Rightarrow> int \<Rightarrow> int \<Rightarrow> bool" where
  "branch_taken i x1 x2 =
     (if branch i = ''al'' then True
      else if branch i = ''eq'' then x1 = x2
      else if branch i = ''ne'' then x1 \<noteq> x2
      else if branch i = ''lt'' then x1 < x2
      else if branch i = ''ge'' then x1 \<ge> x2
      else if branch i = ''ltu'' then int32_unsigned x1 < int32_unsigned x2
      else if branch i = ''geu'' then int32_unsigned x1 \<ge> int32_unsigned x2
      else False)"

text \<open>A load: \<^verbatim>\<open>l = this.bus.read(r, n, signed); this.setX(instr.rd, l)\<close>.\<close>

definition load :: "'s Virgule \<Rightarrow> instr \<Rightarrow> int \<Rightarrow> int \<Rightarrow> bool \<Rightarrow> int \<times> 's Virgule" where
  "load s i r n is_signed =
     (let (l, b) = Bus_read (bus s) r n is_signed
      in (l, setX (s\<lparr>bus := b\<rparr>) (rd i) l))"

definition store :: "'s Virgule \<Rightarrow> int \<Rightarrow> int \<Rightarrow> int \<Rightarrow> int \<times> 's Virgule" where
  "store s r n x2 = (0, s\<lparr>bus := Bus_write (bus s) r n x2\<rparr>)"

text \<open>The register and memory update; the first component is the local \<^verbatim>\<open>l\<close>.\<close>

definition writeback :: "'s Virgule \<Rightarrow> instr \<Rightarrow> int \<Rightarrow> int \<Rightarrow> int \<Rightarrow> int \<times> 's Virgule" where
  "writeback s i r incPc x2 =
     (if wbMem i = ''r'' then (0, setX s (rd i) r)
      else if wbMem i = ''pc+'' then (0, setX s (rd i) incPc)
      else if wbMem i = ''lb'' then load s i r 1 True
      else if wbMem i = ''lh'' then load s i r 2 True
      else if wbMem i = ''lw'' then load s i r 4 True
      else if wbMem i = ''lbu'' then load s i r 1 False
      else if wbMem i = ''lhu'' then load s i r 2 False
      else if wbMem i = ''sb'' then store s r 1 x2
      else if wbMem i = ''sh'' then store s r 2 x2
      else if wbMem i = ''sw'' then store s r 4 x2
      else (0, s))"

text \<open>The program counter update at the end of \<^verbatim>\<open>step\<close>.\<close>

definition update_pc :: "'s Virgule \<Rightarrow> instr \<Rightarrow> bool \<Rightarrow> bool \<Rightarrow> int \<Rightarrow> int \<Rightarrow> 's Virgule" where
  "update_pc s i enteringIrq taken r incPc =
     (if enteringIrq
      then (setPc s 4)\<lparr>mepc := (if taken then r else incPc), irqState := Some True\<rparr>
      else if name i = ''mret'' then (setPc s (mepc s))\<lparr>irqState := Some False\<rparr>
      else if taken then setPc s r
      else setPc s incPc)"

definition Virgule_step :: "(int \<Rightarrow> instr) \<Rightarrow> 's Virgule \<Rightarrow> trace \<times> 's Virgule" where
  "Virgule_step fromWord s =
     (let savedPc = pc s;
          incPc = pc s + 4;
          irq = Bus_irq (bus s);
          (word, b) = Bus_read (bus s) (pc s) 4 False;
          s = s\<lparr>bus := b\<rparr>;
          fetchError = error (bus s);
          i = fromWord word;
          x1 = getX s (rs1 i);
          x2 = getX s (rs2 i);
          a = alu_a i (pc s) x1;
          b = alu_b i x2;
          r = alu_r i a b;
          taken = branch_taken i x1 x2;
          (l, s) = writeback s i r incPc x2;
          loadStoreError =
            (wbMem i \<noteq> [] \<and> (hd (wbMem i) = CHR ''l'' \<or> hd (wbMem i) = CHR ''s'')
             \<and> error (bus s));
          enteringIrq = (irq \<and> irqState s \<noteq> Some True);
          s = update_pc s i enteringIrq taken r incPc
      in (\<lparr>t_instr = i, t_pc = savedPc, t_incPc = incPc, t_irq = enteringIrq,
           t_x1 = x1, t_x2 = x2, t_a = a, t_b = b, t_r = r, t_l = l, t_taken = taken,
           t_fetchError = fetchError, t_loadStoreError = loadStoreError\<rparr>, s))"

subsection \<open>Sequences of calls\<close>

datatype call = Step | Reset

fun exec :: "(int \<Rightarrow> instr) \<Rightarrow> call list \<Rightarrow> 's Virgule \<Rightarrow> 's Virgule" where
  "exec fromWord [] s = s"
| "exec fromWord (Step # cs) s = exec fromWord cs (snd (Virgule_step fromWord s))"
| "exec fromWord (Reset # cs) s = exec fromWord cs (Virgule_reset s)"

section \<open>A small configuration\<close>

text \<open>
  A bus with eight bytes of memory at address 0 and a peripheral at address 4096 whose
  interrupt line is always raised. Two words are stored through the bus: 10485991
  (hexadecimal 00A000E7, the RISC-V encoding of \<^verbatim>\<open>jalr x1, 10(x0)\<close>) at address 0 and
  807403635 (hexadecimal 30200073, \<^verbatim>\<open>mret\<close>) at address 4. The decoder used with this
  bus decodes the first as a jump to \<open>x0 + 10\<close> that links into \<open>x1\<close>, the second as
  the return from interrupt, and every other word as an instruction without effect.
\<close>

definition irq_source :: "unit methods" where
  "irq_source =
     \<lparr>m_localRead = (\<lambda>st address sz. (0, st)),
      m_localWrite = (\<lambda>st address sz v. st),
      m_reset = (\<lambda>st. st),
      m_irq = (\<lambda>st. True)\<rparr>"

definition irq_device :: "unit Device" where
  "irq_device = (Device_new 4096 4)\<lparr>sub := Peripheral irq_source ()\<rparr>"

definition demo_bus :: "unit Bus" where
  "demo_bus =
     Bus_write
       (Bus_write (addDevice (addDevice Bus_new (Memory_new 0 8)) irq_device) 0 4 10485991)
       4 4 807403635"

definition jump_instr :: instr where
  "jump_instr =
     \<lparr>name = ''jalr'', rs1 = 0, rs2 = 0, rd = 1, imm = 10, src1 = ''x1'', src2 = ''imm'',
      aluOp = ''add'', branch = ''al'', wbMem = ''pc+''\<rparr>"

definition mret_instr :: instr where
  "mret_instr =
     \<lparr>name = ''mret'', rs1 = 0, rs2 = 0, rd = 0, imm = 0, src1 = [], src2 = [],
      aluOp = [], branch = [], wbMem = []\<rparr>"

definition unknown_instr :: instr where
  "unknown_instr =
     \<lparr>name = ''unknown'', rs1 = 0, rs2 = 0, rd = 0, imm = 0, src1 = [], src2 = [],
      aluOp = [], branch = [], wbMem = []\<rparr>"

definition demo_fromWord :: "int \<Rightarrow> instr" where
  "demo_fromWord w =
     (if w = 10485991 then jump_instr
      else if w = 807403635 then mret_instr
      else unknown_instr)"

definition demo_core :: "unit Virgule" where
  "demo_core = Virgule_new 4 demo_bus"

text \<open>The core after its first step, which enters the interrupt handler.\<close>

definition handler_core :: "unit Virgule" where
  "handler_core = snd (Virgule_step demo_fromWord demo_core)"

text \<open>A bus with two memories that overlap on the addresses 4 to 7.\<close>

definition mirror_bus :: "unit Bus" where
  "mirror_bus = addDevice (addDevice Bus_new (Memory_new 0 8)) (Memory_new 4 8)"

text \<open>A bus on which a plain \<^verbatim>\<open>Device\<close> is registered before a memory of the same range.\<close>

definition shadow_bus :: "unit Bus" where
  "shadow_bus = addDevice (addDevice Bus_new (Device_new 0 16)) (Memory_new 0 16)"

text \<open>
  The little-endian composition of \<open>n\<close> bytes from position \<open>k\<close>, as the
  specification of \<^verbatim>\<open>localRead\<close> writes it: the sum of \<open>byte[k + i] * 2^(8 * i)\<close>.
\<close>

definition little_endian_sum :: "8 word list \<Rightarrow> nat \<Rightarrow> nat \<Rightarrow> int" where
  "little_endian_sum bytes k n = (\<Sum>i<n. uint (bytes ! (k + i)) * 2 ^ (8 * i))"

section \<open>Alignment of the program counter\<close>

lemma int32_unsigned_range: "0 \<le> int32_unsigned v \<and> int32_unsigned v < 2 ^ 32"
  unfolding int32_unsigned_def using uint_bounded [of "word_of_int v :: 32 word"] by simp

lemma int32_unsigned_js_and_aligned: "int32_unsigned (js_and v (- 4)) mod 4 = 0"
proof -
  have "take_bit 2 (uint ((word_of_int v :: 32 word) AND - 4)) = 0"
    by (simp add: uint_and take_bit_eq_0_iff bit_eq_iff bit_simps)
  then show ?thesis
    unfolding int32_unsigned_def js_and_def by (simp add: take_bit_eq_mod)
qed

lemma minus_4_mask: "(- 4 :: 32 word) = NOT (mask 2)"
  by (simp add: mask_numeral)

lemma and_minus_4_id:
  assumes "(m::int) mod 4 = 0"
  shows "(word_of_int m :: 32 word) AND - 4 = word_of_int m"
proof (rule bit_word_eqI)
  fix n assume n: "n < LENGTH(32)"
  have tb: "take_bit 2 m = 0" using assms by (simp add: take_bit_eq_mod)
  have low: "\<not> bit m n" if "n < 2" using bit_take_bit_iff [of 2 m n] tb that by simp
  show "bit ((word_of_int m :: 32 word) AND - 4) n = bit (word_of_int m :: 32 word) n"
    unfolding minus_4_mask using low n by (auto simp: bit_simps)
qed

lemma int32_unsigned_js_and_id:
  assumes "0 \<le> m" "m < 2 ^ 32" "m mod 4 = 0"
  shows "int32_unsigned (js_and m (- 4)) = m"
  unfolding int32_unsigned_def js_and_def using assms
  by (simp add: and_minus_4_id uint_word_of_int)

section \<open>The register file\<close>

lemma reset_loop_length: "length (reset_loop regs i) = length regs"
  by (induction regs i rule: reset_loop.induct) (subst reset_loop.simps, simp)

lemma reset_loop_nth:
  "k < length regs \<Longrightarrow> reset_loop regs i ! k = (if i \<le> k then 0 else regs ! k)"
proof (induction regs i rule: reset_loop.induct)
  case (1 regs i)
  show ?case
  proof (cases "i < length regs")
    case True
    with 1 show ?thesis
      by (subst reset_loop.simps) (auto simp: nth_list_update)
  next
    case False
    with 1 show ?thesis by (subst reset_loop.simps) simp
  qed
qed

lemma reset_loop_zero: "reset_loop regs 0 = replicate (length regs) 0"
  by (rule nth_equalityI) (simp_all add: reset_loop_length reset_loop_nth)

lemma setX_frame [simp]:
  "pc (setX s i v) = pc s" "mepc (setX s i v) = mepc s"
  "irqState (setX s i v) = irqState s" "bus (setX s i v) = bus s"
  by (simp_all add: setX_def)

section \<open>Control flow of a step\<close>

lemma writeback_frame:
  "pc (snd (writeback s i r incPc x2)) = pc s"
  "mepc (snd (writeback s i r incPc x2)) = mepc s"
  "irqState (snd (writeback s i r incPc x2)) = irqState s"
  by (simp_all add: writeback_def load_def store_def split: prod.split)

lemma step_control:
  assumes "Virgule_step fromWord s = (t, s')"
  shows "t_irq t = (Bus_irq (bus s) \<and> irqState s \<noteq> Some True)"
    and "pc s' = int32_unsigned (js_and
           (if t_irq t then 4 else if name (t_instr t) = ''mret'' then mepc s
            else if t_taken t then t_r t else pc s + 4) (- 4))"
    and "mepc s' = (if t_irq t then (if t_taken t then t_r t else pc s + 4) else mepc s)"
    and "irqState s' = (if t_irq t then Some True
           else if name (t_instr t) = ''mret'' then Some False else irqState s)"
proof -
  from assms have t: "t = fst (Virgule_step fromWord s)"
    and s': "s' = snd (Virgule_step fromWord s)" by simp_all
  show "t_irq t = (Bus_irq (bus s) \<and> irqState s \<noteq> Some True)"
    unfolding t Virgule_step_def Let_def split_def
    by (simp add: writeback_frame)
  show "pc s' = int32_unsigned (js_and
           (if t_irq t then 4 else if name (t_instr t) = ''mret'' then mepc s
            else if t_taken t then t_r t else pc s + 4) (- 4))"
    unfolding t s' Virgule_step_def Let_def split_def
    by (simp add: writeback_frame update_pc_def setPc_def)
  show "mepc s' = (if t_irq t then (if t_taken t then t_r t else pc s + 4) else mepc s)"
    unfolding t s' Virgule_step_def Let_def split_def
    by (simp add: writeback_frame update_pc_def setPc_def)
  show "irqState s' = (if t_irq t then Some True
           else if name (t_instr t) = ''mret'' then Some False else irqState s)"
    unfolding t s' Virgule_step_def Let_def split_def
    by (simp add: writeback_frame update_pc_def setPc_def)
qed

lemma trap_vector: "int32_unsigned (js_and 4 (- 4)) = 4"
  by (simp add: int32_unsigned_def js_and_def)

lemma demo_core_irq: "Bus_irq (bus demo_core) \<and> irqState demo_core \<noteq> Some True"
  by code_simp

lemma demo_core_step:
  "t_taken (fst (Virgule_step demo_fromWord demo_core)) \<and>
   t_r (fst (Virgule_step demo_fromWord demo_core)) = 10"
  by code_simp

lemma handler_core_state:
  "Bus_irq (bus handler_core) \<and> irqState handler_core = Some True \<and>
   mepc handler_core = 10 \<and> pc handler_core = 4"
  by code_simp

lemma handler_core_mret:
  "name (t_instr (fst (Virgule_step demo_fromWord handler_core))) = ''mret''"
  by code_simp

text \<open>
  C1: when the interrupt line of the bus is raised at the start of a step and
  \<^verbatim>\<open>irqState\<close> is not true (false, or never assigned), the step ends with \<open>pc = 4\<close>,
  with \<open>mepc\<close> equal to the ALU result \<open>r\<close> if the branch was taken and to the pc before
  the step plus 4 otherwise, and with \<^verbatim>\<open>irqState\<close> true. Nothing is assumed about the
  decoded instruction: the entry wins over the return from interrupt, over a taken
  branch and over the sequential update.
\<close>

theorem irq_entry:
  assumes "Bus_irq (bus s)" and "irqState s \<noteq> Some True"
  shows "pc (snd (Virgule_step fromWord s)) = 4 \<and>
         mepc (snd (Virgule_step fromWord s)) =
           (if t_taken (fst (Virgule_step fromWord s))
            then t_r (fst (Virgule_step fromWord s)) else pc s + 4) \<and>
         irqState (snd (Virgule_step fromWord s)) = Some True \<and>
         t_irq (fst (Virgule_step fromWord s))"
proof -
  obtain t s' where step: "Virgule_step fromWord s = (t, s')"
    by (cases "Virgule_step fromWord s")
  from step_control [OF step] assms show ?thesis
    by (simp add: step trap_vector)
qed

theorem irq_entry_witness:
  "Bus_irq (bus demo_core) \<and> irqState demo_core \<noteq> Some True \<and>
   pc (snd (Virgule_step demo_fromWord demo_core)) = 4 \<and>
   mepc (snd (Virgule_step demo_fromWord demo_core)) = 10 \<and>
   irqState (snd (Virgule_step demo_fromWord demo_core)) = Some True"
proof -
  have h1: "Bus_irq (bus demo_core)" and h2: "irqState demo_core \<noteq> Some True"
    using demo_core_irq by simp_all
  from irq_entry [OF h1 h2, of demo_fromWord] demo_core_step h1 h2
  show ?thesis by simp
qed

text \<open>
  C2 does not hold as stated: the return from interrupt writes \<open>mepc\<close> through
  \<^verbatim>\<open>setPc\<close>, and \<open>mepc\<close> is the raw ALU result of an interrupted jump. In the
  small configuration the first step is interrupted during a jump to address 10, so
  \<open>mepc = 10\<close>; the second step executes the return and ends with \<open>pc = 8\<close>.
\<close>

theorem mret_return_counterexample:
  "name (t_instr (fst (Virgule_step demo_fromWord handler_core))) = ''mret'' \<and>
   irqState handler_core = Some True \<and>
   mepc handler_core = 10 \<and>
   pc (snd (Virgule_step demo_fromWord handler_core)) = 8 \<and>
   pc (snd (Virgule_step demo_fromWord handler_core)) \<noteq> mepc handler_core"
  by code_simp

text \<open>
  C2, amended: in a step whose decoded instruction is \<^verbatim>\<open>mret\<close> and that does not enter
  the handler (the interrupt line is low, or \<^verbatim>\<open>irqState\<close> is already true), the step
  ends with \<open>pc\<close> equal to the saved \<open>mepc\<close> taken to unsigned 32 bits with its low
  two bits cleared, which is \<open>mepc\<close> itself when \<open>mepc\<close> is a multiple of 4 in
  0..2^32-1, and with \<^verbatim>\<open>irqState\<close> false. When the interrupt line is raised while
  \<^verbatim>\<open>irqState\<close> is already true, the handler is not entered again: the trace reports no
  interrupt, \<open>mepc\<close> keeps its value, and \<open>pc\<close> follows the return, branch or
  sequential rule.
\<close>

theorem mret_return:
  "(name (t_instr (fst (Virgule_step fromWord s))) = ''mret'' \<and>
    (\<not> Bus_irq (bus s) \<or> irqState s = Some True) \<longrightarrow>
      pc (snd (Virgule_step fromWord s)) = int32_unsigned (js_and (mepc s) (- 4)) \<and>
      (0 \<le> mepc s \<and> mepc s < 2 ^ 32 \<and> mepc s mod 4 = 0 \<longrightarrow>
         pc (snd (Virgule_step fromWord s)) = mepc s) \<and>
      irqState (snd (Virgule_step fromWord s)) = Some False) \<and>
   (Bus_irq (bus s) \<and> irqState s = Some True \<longrightarrow>
      \<not> t_irq (fst (Virgule_step fromWord s)) \<and>
      mepc (snd (Virgule_step fromWord s)) = mepc s \<and>
      pc (snd (Virgule_step fromWord s)) = int32_unsigned (js_and
        (if name (t_instr (fst (Virgule_step fromWord s))) = ''mret'' then mepc s
         else if t_taken (fst (Virgule_step fromWord s))
              then t_r (fst (Virgule_step fromWord s)) else pc s + 4) (- 4)))"
proof -
  obtain t s' where step: "Virgule_step fromWord s = (t, s')"
    by (cases "Virgule_step fromWord s")
  from step_control [OF step] show ?thesis
    by (auto simp: step int32_unsigned_js_and_id)
qed

theorem mret_return_witness:
  "name (t_instr (fst (Virgule_step demo_fromWord handler_core))) = ''mret'' \<and>
   Bus_irq (bus handler_core) \<and> irqState handler_core = Some True \<and>
   mepc handler_core = 10 \<and>
   pc (snd (Virgule_step demo_fromWord handler_core)) = 8 \<and>
   irqState (snd (Virgule_step demo_fromWord handler_core)) = Some False \<and>
   \<not> t_irq (fst (Virgule_step demo_fromWord handler_core)) \<and>
   mepc (snd (Virgule_step demo_fromWord handler_core)) = 10"
proof -
  have eight: "int32_unsigned (js_and 10 (- 4)) = 8"
    by (simp add: int32_unsigned_def js_and_def)
  from mret_return [of demo_fromWord handler_core] handler_core_mret handler_core_state eight
  show ?thesis by simp
qed

section \<open>Invariants of the core\<close>

lemma step_pc_aligned:
  "0 \<le> pc (snd (Virgule_step fromWord s)) \<and> pc (snd (Virgule_step fromWord s)) < 2 ^ 32 \<and>
   pc (snd (Virgule_step fromWord s)) mod 4 = 0"
proof -
  obtain t s' where step: "Virgule_step fromWord s = (t, s')"
    by (cases "Virgule_step fromWord s")
  show ?thesis
    unfolding step snd_conv step_control(2) [OF step]
    using int32_unsigned_range int32_unsigned_js_and_aligned by blast
qed

lemma exec_pc_aligned:
  assumes "0 \<le> pc s \<and> pc s < 2 ^ 32 \<and> pc s mod 4 = 0"
  shows "0 \<le> pc (exec fromWord cs s) \<and> pc (exec fromWord cs s) < 2 ^ 32 \<and>
         pc (exec fromWord cs s) mod 4 = 0"
  using assms
proof (induction cs arbitrary: s)
  case Nil
  then show ?case by simp
next
  case (Cons c cs)
  show ?case
  proof (cases c)
    case Step
    then show ?thesis using Cons.IH [OF step_pc_aligned] by simp
  next
    case Reset
    have "0 \<le> pc (Virgule_reset s) \<and> pc (Virgule_reset s) < 2 ^ 32 \<and> pc (Virgule_reset s) mod 4 = 0"
      by (simp add: Virgule_reset_def)
    from Cons.IH [OF this] Reset show ?thesis by simp
  qed
qed

text \<open>
  C3: after every call of \<^verbatim>\<open>step\<close>, from any state, \<open>pc\<close> is an unsigned 32-bit
  value and a multiple of 4; after \<^verbatim>\<open>reset\<close> it is 0; hence it is an unsigned 32-bit
  multiple of 4 after every sequence of \<^verbatim>\<open>step\<close> and \<^verbatim>\<open>reset\<close> calls on a newly
  constructed core.
\<close>

theorem pc_word_aligned:
  "(0 \<le> pc (snd (Virgule_step fromWord s)) \<and> pc (snd (Virgule_step fromWord s)) < 2 ^ 32 \<and>
    pc (snd (Virgule_step fromWord s)) mod 4 = 0) \<and>
   pc (Virgule_reset s) = 0 \<and>
   (0 \<le> pc (exec fromWord cs (Virgule_new nx b)) \<and>
    pc (exec fromWord cs (Virgule_new nx b)) < 2 ^ 32 \<and>
    pc (exec fromWord cs (Virgule_new nx b)) mod 4 = 0)"
proof -
  have "pc (Virgule_new nx b) = 0"
    by (simp add: Virgule_new_def Virgule_reset_def)
  then have "0 \<le> pc (Virgule_new nx b) \<and> pc (Virgule_new nx b) < 2 ^ 32 \<and>
      pc (Virgule_new nx b) mod 4 = 0" by simp
  from exec_pc_aligned [OF this] step_pc_aligned show ?thesis
    by (simp add: Virgule_reset_def)
qed

text \<open>
  C4: for a register index that is 0, negative, or not below the length of the
  register file, \<^verbatim>\<open>setX\<close> changes nothing and \<^verbatim>\<open>getX\<close> returns 0; and \<^verbatim>\<open>getX(0)\<close> is
  0 after every sequence of calls.
\<close>

theorem register_zero:
  "(i = 0 \<or> i < 1 \<or> int (length (x_regs s)) \<le> i \<longrightarrow> setX s i v = s \<and> getX s i = 0) \<and>
   getX (exec fromWord cs s) 0 = 0"
  by (auto simp: setX_def getX_def)

theorem register_zero_witness:
  "setX demo_core 0 5 = demo_core \<and> getX demo_core 0 = 0 \<and>
   setX demo_core 4 5 = demo_core \<and> getX demo_core 4 = 0 \<and>
   getX (exec demo_fromWord [Step, Step] demo_core) 0 = 0"
proof -
  have len: "length (x_regs demo_core) = 4"
    by (simp add: demo_core_def Virgule_new_def Virgule_reset_def reset_loop_length)
  from register_zero [of 0 demo_core 5 demo_fromWord "[Step, Step]"]
       register_zero [of 4 demo_core 5 demo_fromWord "[Step, Step]"] len
  show ?thesis by simp
qed

text \<open>
  C10: \<^verbatim>\<open>reset\<close> changes the register file (all zeros), \<open>pc\<close> (0) and \<open>mepc\<close> (0) and
  nothing else: \<^verbatim>\<open>irqState\<close> and the bus are kept. After a reset issued while
  \<^verbatim>\<open>irqState\<close> is true the core is still in handler state, and the next step does not
  enter the handler whatever the interrupt line says: the trace reports no interrupt,
  \<open>mepc\<close> stays 0, and \<^verbatim>\<open>irqState\<close> stays true unless the instruction is \<^verbatim>\<open>mret\<close>.
\<close>

theorem reset_frame:
  "Virgule_reset s = s\<lparr>x_regs := replicate (length (x_regs s)) 0, pc := 0, mepc := 0\<rparr> \<and>
   irqState (Virgule_reset s) = irqState s \<and> bus (Virgule_reset s) = bus s \<and>
   (irqState s = Some True \<longrightarrow>
      \<not> t_irq (fst (Virgule_step fromWord (Virgule_reset s))) \<and>
      mepc (snd (Virgule_step fromWord (Virgule_reset s))) = 0 \<and>
      irqState (snd (Virgule_step fromWord (Virgule_reset s))) =
        (if name (t_instr (fst (Virgule_step fromWord (Virgule_reset s)))) = ''mret''
         then Some False else Some True))"
proof -
  obtain t s' where step: "Virgule_step fromWord (Virgule_reset s) = (t, s')"
    by (cases "Virgule_step fromWord (Virgule_reset s)")
  have fields: "Virgule_reset s =
      s\<lparr>x_regs := replicate (length (x_regs s)) 0, pc := 0, mepc := 0\<rparr>"
    by (simp add: Virgule_reset_def reset_loop_zero)
  have frame: "irqState (Virgule_reset s) = irqState s" "bus (Virgule_reset s) = bus s"
    and zero: "mepc (Virgule_reset s) = 0"
    by (simp_all add: Virgule_reset_def)
  have next_step: "irqState s = Some True \<longrightarrow>
      \<not> t_irq (fst (Virgule_step fromWord (Virgule_reset s))) \<and>
      mepc (snd (Virgule_step fromWord (Virgule_reset s))) = 0 \<and>
      irqState (snd (Virgule_step fromWord (Virgule_reset s))) =
        (if name (t_instr (fst (Virgule_step fromWord (Virgule_reset s)))) = ''mret''
         then Some False else Some True)"
    using step_control [OF step] frame zero by (simp add: step)
  from fields frame next_step show ?thesis by blast
qed

theorem reset_frame_witness:
  "irqState handler_core = Some True \<and> Bus_irq (bus (Virgule_reset handler_core)) \<and>
   irqState (Virgule_reset handler_core) = Some True \<and>
   \<not> t_irq (fst (Virgule_step demo_fromWord (Virgule_reset handler_core))) \<and>
   mepc (snd (Virgule_step demo_fromWord (Virgule_reset handler_core))) = 0"
proof -
  have h: "irqState handler_core = Some True" and irq: "Bus_irq (bus handler_core)"
    using handler_core_state by simp_all
  note r = reset_frame [of handler_core demo_fromWord]
  from r have b: "bus (Virgule_reset handler_core) = bus handler_core" by blast
  from r h have "irqState (Virgule_reset handler_core) = Some True"
    and "\<not> t_irq (fst (Virgule_step demo_fromWord (Virgule_reset handler_core)))"
    and "mepc (snd (Virgule_step demo_fromWord (Virgule_reset handler_core))) = 0"
    by metis+
  with h irq b show ?thesis by metis
qed

section \<open>Routing on the bus\<close>

lemma int32_unsigned_idem [simp]: "int32_unsigned (int32_unsigned a) = int32_unsigned a"
  by (simp add: int32_unsigned_def)

lemma getDevices_set:
  "set (getDevices bs a sz) =
     {i. i < length (devices bs) \<and> Device_accepts (devices bs ! i) (int32_unsigned a) sz}"
  by (auto simp: getDevices_def)

lemma getDevices_empty:
  "getDevices bs a sz = [] \<longleftrightarrow>
     (\<forall>d \<in> set (devices bs). \<not> Device_accepts d (int32_unsigned a) sz)"
  by (auto simp: getDevices_def filter_empty_conv all_set_conv_all_nth)

lemma getDevices_distinct: "distinct (getDevices bs a sz)"
  by (simp add: getDevices_def)

lemma getDevices_sorted: "sorted (getDevices bs a sz)"
  by (simp add: getDevices_def sorted_wrt_filter)

lemma getDevices_hd:
  assumes "find (\<lambda>d. Device_accepts d (int32_unsigned a) sz) (devices bs) = Some d"
  shows "getDevices bs a sz \<noteq> [] \<and> devices bs ! hd (getDevices bs a sz) = d"
proof -
  let ?P = "\<lambda>d. Device_accepts d (int32_unsigned a) sz"
  from assms obtain i where i: "i < length (devices bs)" "?P (devices bs ! i)"
    "d = devices bs ! i" "\<forall>j<i. \<not> ?P (devices bs ! j)"
    by (auto simp: find_Some_iff)
  then have mem: "i \<in> set (getDevices bs a sz)" by (simp add: getDevices_set)
  then have ne: "getDevices bs a sz \<noteq> []" by auto
  then obtain k ks where ks: "getDevices bs a sz = k # ks" by (cases "getDevices bs a sz") auto
  have "k \<in> set (getDevices bs a sz)" by (simp add: ks)
  then have k: "k < length (devices bs)" "?P (devices bs ! k)"
    by (simp_all add: getDevices_set)
  have "k \<le> i" using getDevices_sorted [of bs a sz] mem by (auto simp: ks)
  with i(4) k(2) have "k = i" by (cases "k = i") auto
  with ne i(3) show ?thesis by (simp add: ks)
qed

lemma write_loop_spec:
  assumes "distinct refs"
  shows "length (write_loop refs ds a sz v) = length ds \<and>
    (\<forall>i < length ds. write_loop refs ds a sz v ! i =
       (if i \<in> set refs then Device_write (ds ! i) a sz v else ds ! i))"
  using assms
proof (induction refs arbitrary: ds)
  case Nil
  then show ?case by simp
next
  case (Cons r refs)
  let ?ds = "ds[r := Device_write (ds ! r) a sz v]"
  from Cons.prems have d: "distinct refs" and r: "r \<notin> set refs" by simp_all
  note IH = Cons.IH [OF d, of ?ds]
  have len: "length (write_loop (r # refs) ds a sz v) = length ds"
    using IH by simp
  have "write_loop (r # refs) ds a sz v ! i =
      (if i \<in> set (r # refs) then Device_write (ds ! i) a sz v else ds ! i)"
    if i: "i < length ds" for i
  proof (cases "i = r")
    case True
    with IH i r show ?thesis by simp
  next
    case False
    then have "?ds ! i = ds ! i" by simp
    with IH i False show ?thesis by simp
  qed
  with len show ?case by blast
qed

lemma Bus_write_devices:
  "devices (Bus_write bs a sz v) =
     map (\<lambda>d. if Device_accepts d (int32_unsigned a) sz then Device_write d a sz v else d)
       (devices bs)"
  using write_loop_spec [OF getDevices_distinct, of bs a sz "devices bs" a sz v]
  by (auto simp: Bus_write_def Let_def getDevices_set intro!: nth_equalityI)


lemma Bus_read_error: "error (snd (Bus_read bs a sz sg)) = (getDevices bs a sz = [])"
  by (simp add: Bus_read_def Let_def getDevices_def)

lemma Bus_read_none:
  assumes "getDevices bs a sz = []"
  shows "Bus_read bs a sz sg = (0, bs\<lparr>error := True\<rparr>)"
  using assms by (simp add: Bus_read_def Let_def getDevices_def)

lemma Bus_read_some:
  assumes "getDevices bs a sz \<noteq> []"
  shows "fst (Bus_read bs a sz sg) =
     fst (Device_read (devices bs ! hd (getDevices bs a sz)) (int32_unsigned a) sz sg)"
  using assms by (simp add: Bus_read_def Let_def getDevices_def)

lemma localWrite_range:
  "firstAddress (localWrite d a sz v) = firstAddress d"
  "lastAddress (localWrite d a sz v) = lastAddress d"
  by (simp_all add: localWrite_def split: dev_class.split)

lemma localRead_range:
  "firstAddress (snd (localRead d a sz)) = firstAddress d"
  "lastAddress (snd (localRead d a sz)) = lastAddress d"
  by (simp_all add: localRead_def split: dev_class.split)

lemma Device_read_range:
  "firstAddress (snd (Device_read d a sz sg)) = firstAddress d"
  "lastAddress (snd (Device_read d a sz sg)) = lastAddress d"
  by (simp_all add: Device_read_def split_def Let_def localRead_range)

lemma Device_accepts_range:
  "firstAddress d' = firstAddress d \<Longrightarrow> lastAddress d' = lastAddress d \<Longrightarrow>
   Device_accepts d' a sz = Device_accepts d a sz"
  by (simp add: Device_accepts_def)

lemma getDevices_range:
  assumes "length (devices bs') = length (devices bs)"
    and "\<And>i. i < length (devices bs) \<Longrightarrow>
      firstAddress (devices bs' ! i) = firstAddress (devices bs ! i) \<and>
      lastAddress (devices bs' ! i) = lastAddress (devices bs ! i)"
  shows "getDevices bs' a sz = getDevices bs a sz"
  unfolding getDevices_def assms(1)
  by (rule filter_cong) (auto simp: assms(2) Device_accepts_def)

lemma getDevices_error [simp]: "getDevices (bs\<lparr>error := e\<rparr>) a sz = getDevices bs a sz"
  by (simp add: getDevices_def)

lemma getDevices_after_write:
  "getDevices (Bus_write bs a' sz' v') a sz = getDevices bs a sz"
  by (rule getDevices_range)
     (simp_all add: Bus_write_devices Device_write_def localWrite_range)

lemma Bus_read_devices:
  "devices (snd (Bus_read bs a sz sg)) = devices bs \<or>
   devices (snd (Bus_read bs a sz sg)) =
     (devices bs)[hd (getDevices bs a sz) :=
        snd (Device_read (devices bs ! hd (getDevices bs a sz)) (int32_unsigned a) sz sg)]"
  by (simp add: Bus_read_def Let_def getDevices_def)

lemma list_update_range:
  assumes "i < length ds"
  shows "firstAddress (ds[k := snd (Device_read (ds ! k) a sz sg)] ! i) = firstAddress (ds ! i) \<and>
         lastAddress (ds[k := snd (Device_read (ds ! k) a sz sg)] ! i) = lastAddress (ds ! i)"
proof (cases "k = i")
  case True
  with assms show ?thesis by (simp add: Device_read_range)
next
  case False
  then show ?thesis by simp
qed

lemma getDevices_after_read:
  "getDevices (snd (Bus_read bs a' sz' sg')) a sz = getDevices bs a sz"
proof (rule getDevices_range)
  show "length (devices (snd (Bus_read bs a' sz' sg'))) = length (devices bs)"
    using Bus_read_devices [of bs a' sz' sg'] by auto
next
  fix i assume "i < length (devices bs)"
  from list_update_range [OF this] Bus_read_devices [of bs a' sz' sg']
  show "firstAddress (devices (snd (Bus_read bs a' sz' sg')) ! i) =
      firstAddress (devices bs ! i) \<and>
      lastAddress (devices (snd (Bus_read bs a' sz' sg')) ! i) = lastAddress (devices bs ! i)"
    by auto
qed

lemma replicate_8: "replicate 8 x = [x, x, x, x, x, x, x, x]"
  by (simp add: numeral_eq_Suc)

lemma demo_bus_eq:
  "demo_bus =
     \<lparr>devices =
        [\<lparr>dev_size = 8, firstAddress = 0, lastAddress = 7,
          sub = Memory [231, 0, 160, 0, 115, 0, 32, 48]\<rparr>,
         \<lparr>dev_size = 4, firstAddress = 4096, lastAddress = 4099,
          sub = Peripheral irq_source ()\<rparr>],
      error = False\<rparr>"
  by (simp add: demo_bus_def irq_device_def Bus_new_def addDevice_def Memory_new_def
      Device_new_def int32_unsigned_def Bus_write_def getDevices_def Device_accepts_def
      upt_rec Device_write_def localWrite_def Memory_localWrite_def localWrite_loop.simps
      data_set_def int32_unsignedSlice_def replicate_8)

lemma mirror_bus_eq:
  "mirror_bus =
     \<lparr>devices =
        [\<lparr>dev_size = 8, firstAddress = 0, lastAddress = 7,
          sub = Memory [0, 0, 0, 0, 0, 0, 0, 0]\<rparr>,
         \<lparr>dev_size = 8, firstAddress = 4, lastAddress = 11,
          sub = Memory [0, 0, 0, 0, 0, 0, 0, 0]\<rparr>],
      error = False\<rparr>"
  by (simp add: mirror_bus_def Bus_new_def addDevice_def Memory_new_def
      Device_new_def int32_unsigned_def replicate_8)

text \<open>
  C5: \<^verbatim>\<open>Bus.read\<close> resolves the address to unsigned 32 bits. If no device of the bus
  accepts the range, it returns 0 and leaves the bus with \<open>error\<close> true and nothing
  else changed; otherwise it returns what the first accepting device's \<^verbatim>\<open>read\<close>
  returns and leaves \<open>error\<close> false. The flag after the call does not depend on the
  flag before it, nor on a read or a write made before it.
\<close>

theorem bus_read:
  "(case find (\<lambda>d. Device_accepts d (int32_unsigned a) sz) (devices bs) of
      None \<Rightarrow> Bus_read bs a sz sg = (0, bs\<lparr>error := True\<rparr>)
    | Some d \<Rightarrow>
        fst (Bus_read bs a sz sg) = fst (Device_read d (int32_unsigned a) sz sg) \<and>
        \<not> error (snd (Bus_read bs a sz sg))) \<and>
   error (snd (Bus_read (bs\<lparr>error := e\<rparr>) a sz sg)) = error (snd (Bus_read bs a sz sg)) \<and>
   error (snd (Bus_read (snd (Bus_read bs a' sz' sg')) a sz sg)) =
     error (snd (Bus_read bs a sz sg)) \<and>
   error (snd (Bus_read (Bus_write bs a' sz' v') a sz sg)) =
     error (snd (Bus_read bs a sz sg))"
proof -
  let ?P = "\<lambda>d. Device_accepts d (int32_unsigned a) sz"
  have first: "case find ?P (devices bs) of
      None \<Rightarrow> Bus_read bs a sz sg = (0, bs\<lparr>error := True\<rparr>)
    | Some d \<Rightarrow>
        fst (Bus_read bs a sz sg) = fst (Device_read d (int32_unsigned a) sz sg) \<and>
        \<not> error (snd (Bus_read bs a sz sg))"
  proof (cases "find ?P (devices bs)")
    case None
    then have "getDevices bs a sz = []"
      by (simp add: getDevices_empty find_None_iff)
    with None show ?thesis by (simp add: Bus_read_none)
  next
    case (Some d)
    from getDevices_hd [OF Some] Some show ?thesis
      by (simp add: Bus_read_some Bus_read_error)
  qed
  then show ?thesis
    by (simp add: Bus_read_error getDevices_after_read getDevices_after_write)
qed

theorem bus_read_witness:
  "fst (Bus_read demo_bus 0 4 False) = 10485991 \<and> \<not> error (snd (Bus_read demo_bus 0 4 False)) \<and>
   Bus_read demo_bus 100 4 False = (0, demo_bus\<lparr>error := True\<rparr>)"
proof -
  have hit: "find (\<lambda>d. Device_accepts d (int32_unsigned 0) 4) (devices demo_bus) =
      Some (hd (devices demo_bus))"
    and miss: "find (\<lambda>d. Device_accepts d (int32_unsigned 100) 4) (devices demo_bus) = None"
    by (simp_all add: demo_bus_eq Device_accepts_def int32_unsigned_def)
  have val: "fst (Device_read (hd (devices demo_bus)) (int32_unsigned 0) 4 False) = 10485991"
    by (simp add: demo_bus_eq Device_read_def localRead_def Memory_localRead_def
        localRead_loop.simps data_get_def js_or_def js_shl_def shiftCount_def ToUint32_def
        int32_unsigned_def int32_unsignedSlice_def)
  from bus_read [where bs = demo_bus and a = 0 and sz = 4 and sg = False]
    bus_read [where bs = demo_bus and a = 100 and sz = 4 and sg = False] hit miss val
  show ?thesis by simp
qed

text \<open>
  C6: \<^verbatim>\<open>Bus.write\<close> sets \<open>error\<close> to true exactly when no device of the bus accepts
  the range, and then changes nothing else; every accepting device, and no other, is
  replaced by the result of its \<^verbatim>\<open>write\<close>. With two memories that overlap, both are
  written.
\<close>

theorem bus_write:
  "error (Bus_write bs a sz v) =
     (\<forall>d \<in> set (devices bs). \<not> Device_accepts d (int32_unsigned a) sz) \<and>
   devices (Bus_write bs a sz v) =
     map (\<lambda>d. if Device_accepts d (int32_unsigned a) sz then Device_write d a sz v else d)
       (devices bs) \<and>
   ((\<forall>d \<in> set (devices bs). \<not> Device_accepts d (int32_unsigned a) sz) \<longrightarrow>
      Bus_write bs a sz v = bs\<lparr>error := True\<rparr>)"
proof -
  have err: "error (Bus_write bs a sz v) =
     (\<forall>d \<in> set (devices bs). \<not> Device_accepts d (int32_unsigned a) sz)"
    by (simp add: Bus_write_def Let_def getDevices_empty)
  have none: "Bus_write bs a sz v = bs\<lparr>error := True\<rparr>"
    if "\<forall>d \<in> set (devices bs). \<not> Device_accepts d (int32_unsigned a) sz"
    using that by (simp add: Bus_write_def Let_def getDevices_empty [symmetric])
  from err none Bus_write_devices [of bs a sz v] show ?thesis by blast
qed


theorem bus_write_witness:
  "\<not> error (Bus_write mirror_bus 4 1 255) \<and>
   map sub (devices (Bus_write mirror_bus 4 1 255)) =
     [Memory [0, 0, 0, 0, 255, 0, 0, 0], Memory [255, 0, 0, 0, 0, 0, 0, 0]] \<and>
   Bus_write mirror_bus 100 1 255 = mirror_bus\<lparr>error := True\<rparr>"
proof -
  have w: "map (\<lambda>d. if Device_accepts d (int32_unsigned 4) 1 then Device_write d 4 1 255 else d)
      (devices mirror_bus) =
     [\<lparr>dev_size = 8, firstAddress = 0, lastAddress = 7,
       sub = Memory [0, 0, 0, 0, 255, 0, 0, 0]\<rparr>,
      \<lparr>dev_size = 8, firstAddress = 4, lastAddress = 11,
       sub = Memory [255, 0, 0, 0, 0, 0, 0, 0]\<rparr>]"
    by (simp add: mirror_bus_eq int32_unsigned_def Device_accepts_def
      Device_write_def localWrite_def Memory_localWrite_def localWrite_loop.simps
      data_set_def int32_unsignedSlice_def)
  have acc: "\<not> (\<forall>d \<in> set (devices mirror_bus). \<not> Device_accepts d (int32_unsigned 4) 1)"
    and rej: "\<forall>d \<in> set (devices mirror_bus). \<not> Device_accepts d (int32_unsigned 100) 1"
    by (simp_all add: mirror_bus_eq int32_unsigned_def Device_accepts_def)
  from bus_write [where bs = mirror_bus and a = 4 and sz = 1 and v = 255]
    bus_write [where bs = mirror_bus and a = 100 and sz = 1 and v = 255] w acc rej
  show ?thesis by simp
qed


section \<open>Reading a memory\<close>

lemma int32_unsigned_mod: "int32_unsigned v = v mod 2 ^ 32"
  by (simp add: int32_unsigned_def uint_word_of_int)

lemma int32_unsigned_id: "0 \<le> v \<Longrightarrow> v < 2 ^ 32 \<Longrightarrow> int32_unsigned v = v"
  by (simp add: int32_unsigned_mod)

lemma int32_signed_id: "- (2 ^ 31) \<le> v \<Longrightarrow> v < 2 ^ 31 \<Longrightarrow> int32_signed v = v"
  unfolding int32_signed_def sint_sbintrunc'
  by (simp add: signed_take_bit_int_eq_self)

lemma shiftCount_small: "n < 32 \<Longrightarrow> shiftCount (int n) = n"
  unfolding shiftCount_def ToUint32_def uint_word_of_int by simp

lemma or_push_bit_add:
  assumes "0 \<le> r" "r < 2 ^ n"
  shows "(r::int) OR push_bit n b = r + b * 2 ^ n"
proof -
  have "take_bit n r = r" using assms by (simp add: take_bit_int_eq_self)
  then have "r OR push_bit n b = concat_bit n r b" by (simp add: concat_bit_def)
  also have "\<dots> = take_bit n r + push_bit n b" by (rule concat_bit_eq)
  finally show ?thesis using \<open>take_bit n r = r\<close> by (simp add: push_bit_eq_mult)
qed

lemma js_or_js_shl:
  assumes "0 \<le> r" "r < 2 ^ n" "n < 32"
  shows "js_or r (js_shl b (int n)) = int32_signed (r + b * 2 ^ n)"
proof -
  have "(word_of_int r :: 32 word) OR push_bit n (word_of_int b) =
      word_of_int (r OR push_bit n b)"
    by (simp add: of_int_or_eq of_int_push_bit)
  then show ?thesis
    unfolding js_or_def js_shl_def int32_signed_def
    using assms by (simp add: shiftCount_small or_push_bit_add)
qed


lemma uint_byte_range: "0 \<le> uint (w :: 8 word) \<and> uint w < 256"
  using uint_bounded [of w] by simp

lemma data_get_nth:
  assumes "0 \<le> offset" "offset + int i < int (length bytes)"
  shows "data_get bytes (offset + int i) = uint (bytes ! (nat offset + i))"
  using assms by (simp add: data_get_def nat_add_distrib)

lemma little_endian_sum_bound: "0 \<le> little_endian_sum bytes k n \<and> little_endian_sum bytes k n < 2 ^ (8 * n)"
proof (induction n)
  case 0
  show ?case by (simp add: little_endian_sum_def)
next
  case (Suc n)
  define p :: int where "p = 2 ^ (8 * n)"
  define u where "u = uint (bytes ! (k + n))"
  have b: "0 \<le> u" "u \<le> 255"
    using uint_byte_range [of "bytes ! (k + n)"] by (simp_all add: u_def)
  have p: "0 < p" by (simp add: p_def)
  have s: "little_endian_sum bytes k (Suc n) = little_endian_sum bytes k n + u * p"
    by (simp add: little_endian_sum_def p_def u_def)
  have up: "u * p \<le> 255 * p" "0 \<le> u * p"
    using b p by (simp_all add: mult_right_mono)
  have pw: "(2::int) ^ (8 * Suc n) = 256 * p"
    by (simp add: power_add p_def)
  from Suc have "0 \<le> little_endian_sum bytes k n" "little_endian_sum bytes k n < p" by (simp_all add: p_def)
  with up show ?case unfolding s pw by linarith
qed

lemma localRead_loop_step:
  assumes "0 \<le> offset" "offset + int i < int (length bytes)" "i < 4"
  shows "js_or (little_endian_sum bytes (nat offset) i) (js_shl (data_get bytes (offset + int i)) (int (8 * i))) =
     int32_signed (little_endian_sum bytes (nat offset) (Suc i))"
proof -
  have "8 * i < 32" using assms(3) by simp
  from js_or_js_shl [OF _ _ this, of "little_endian_sum bytes (nat offset) i"] little_endian_sum_bound [of bytes "nat offset" i]
  show ?thesis
    by (simp add: data_get_nth [OF assms(1,2)] little_endian_sum_def)
qed


lemma int32_signed_wrap:
  assumes "2 ^ 31 \<le> v" "v < 2 ^ 32"
  shows "int32_signed v = v - 2 ^ 32"
proof -
  have "(v + 2147483648) mod 4294967296 = (v + 2147483648 - 4294967296) mod 4294967296"
    by (rule minus_mod_self2 [symmetric])
  also have "\<dots> = v + 2147483648 - 4294967296"
    using assms by (intro mod_pos_pos_trivial) simp_all
  finally have "take_bit 32 (v + 2147483648) = v - 2147483648"
    by (simp add: take_bit_eq_mod)
  then show ?thesis
    unfolding int32_signed_def sint_sbintrunc'
    by (simp add: signed_take_bit_eq_take_bit_shift)
qed

lemma localRead_loop_sum:
  assumes "0 \<le> offset" "offset + int n \<le> int (length bytes)" "n \<le> 4" "i \<le> n"
  shows "localRead_loop bytes offset (int n) (int i) (int32_signed (little_endian_sum bytes (nat offset) i)) =
     int32_signed (little_endian_sum bytes (nat offset) n)"
  using assms(4)
proof (induction "n - i" arbitrary: i)
  case 0
  then have "i = n" by simp
  then show ?case by (subst localRead_loop.simps) simp
next
  case (Suc d)
  then have i: "i < n" "Suc i \<le> n" "d = n - Suc i" by simp_all
  with assms(3) have i4: "i < 4" by simp
  have "little_endian_sum bytes (nat offset) i < 2 ^ (8 * i)" "0 \<le> little_endian_sum bytes (nat offset) i"
    using little_endian_sum_bound [of bytes "nat offset" i] by simp_all
  moreover have "(2::int) ^ (8 * i) \<le> 2 ^ 24"
    using i4 by (intro power_increasing) simp_all
  ultimately have small: "int32_signed (little_endian_sum bytes (nat offset) i) = little_endian_sum bytes (nat offset) i"
    by (intro int32_signed_id) simp_all
  have inr: "offset + int i < int (length bytes)" using assms(2) i(1) by simp
  have step: "js_or (little_endian_sum bytes (nat offset) i)
       (js_shl (data_get bytes (offset + int i)) (8 * int i)) =
     int32_signed (little_endian_sum bytes (nat offset) (Suc i))"
    using localRead_loop_step [OF assms(1) inr i4] by simp
  have "localRead_loop bytes offset (int n) (int i) (int32_signed (little_endian_sum bytes (nat offset) i)) =
     localRead_loop bytes offset (int n) (int (Suc i))
       (int32_signed (little_endian_sum bytes (nat offset) (Suc i)))"
    using i(1) by (subst localRead_loop.simps) (simp add: small step add.commute)
  also have "\<dots> = int32_signed (little_endian_sum bytes (nat offset) n)"
    by (rule Suc.hyps(1) [OF i(3) i(2)])
  finally show ?case .
qed

lemma Memory_localRead_sum:
  assumes "0 \<le> offset" "offset + sz \<le> int (length bytes)" "0 \<le> sz" "sz \<le> 4"
  shows "Memory_localRead bytes offset sz = int32_signed (little_endian_sum bytes (nat offset) (nat sz))"
proof -
  have z: "int32_signed (little_endian_sum bytes (nat offset) 0) = 0"
    by (simp add: little_endian_sum_def int32_signed_def)
  from localRead_loop_sum [of offset "nat sz" bytes 0] assms show ?thesis
    by (simp add: Memory_localRead_def z)
qed


lemma little_endian_sum_4:
  "little_endian_sum bytes k 4 = little_endian_sum bytes k 3 + uint (bytes ! (k + 3)) * 2 ^ 24"
proof -
  have "little_endian_sum bytes k (Suc 3) = little_endian_sum bytes k 3 + uint (bytes ! (k + 3)) * 2 ^ (8 * 3)"
    unfolding little_endian_sum_def by (rule sum.lessThan_Suc)
  then show ?thesis by simp
qed

text \<open>
  C8 does not hold as stated for a 4-byte read whose last byte is 128 or more: \<^verbatim>\<open><<\<close>
  and \<^verbatim>\<open>|\<close> give signed 32-bit results, so \<^verbatim>\<open>localRead\<close> returns a negative number
  where the sum is 2^31 or more.
\<close>

theorem localRead_little_endian_counterexample:
  "Memory_localRead [0, 0, 0, 128] 0 4 = - 2147483648 \<and>
   little_endian_sum [0, 0, 0, 128] 0 4 = 2147483648 \<and>
   Memory_localRead [0, 0, 0, 128] 0 4 \<noteq> little_endian_sum [0, 0, 0, 128] 0 4 \<and>
   Memory_localRead [0, 0, 0, 128] 0 4 < 0"
  by (simp add: Memory_localRead_def localRead_loop.simps data_get_def js_or_def js_shl_def
      shiftCount_def ToUint32_def little_endian_sum_def lessThan_nat_numeral lessThan_Suc)

text \<open>
  C8, amended: for an in-range offset and a size of 1, 2 or 4, \<^verbatim>\<open>localRead\<close> returns
  the little-endian sum of the bytes reinterpreted as a signed 32-bit integer. That is
  the sum itself, a non-negative value, for the sizes 1 and 2 and for size 4 when the
  byte at \<open>offset + 3\<close> is below 128; it is the sum minus 2^32, a negative value, for
  size 4 when that byte is 128 or more.
\<close>

theorem localRead_little_endian:
  assumes "0 \<le> offset" and "offset + sz \<le> int (length bytes)"
    and "sz = 1 \<or> sz = 2 \<or> sz = 4"
  shows "Memory_localRead bytes offset sz =
           int32_signed (little_endian_sum bytes (nat offset) (nat sz)) \<and>
         (sz \<noteq> 4 \<or> uint (bytes ! (nat offset + 3)) < 128 \<longrightarrow>
            Memory_localRead bytes offset sz = little_endian_sum bytes (nat offset) (nat sz) \<and>
            0 \<le> Memory_localRead bytes offset sz) \<and>
         (sz = 4 \<and> 128 \<le> uint (bytes ! (nat offset + 3)) \<longrightarrow>
            Memory_localRead bytes offset sz = little_endian_sum bytes (nat offset) (nat sz) - 2 ^ 32 \<and>
            Memory_localRead bytes offset sz < 0)"
proof -
  let ?s = "little_endian_sum bytes (nat offset) (nat sz)"
  from assms have read: "Memory_localRead bytes offset sz = int32_signed ?s"
    by (intro Memory_localRead_sum) auto
  have bound: "0 \<le> ?s" "?s < 2 ^ (8 * nat sz)"
    using little_endian_sum_bound [of bytes "nat offset" "nat sz"] by simp_all
  have low: "?s < 2 ^ 31" if "sz \<noteq> 4 \<or> uint (bytes ! (nat offset + 3)) < 128"
  proof (cases "sz = 4")
    case False
    with assms(3) have "8 * nat sz \<le> 16" by auto
    then have "(2::int) ^ (8 * nat sz) \<le> 2 ^ 16" by (intro power_increasing) simp_all
    with bound show ?thesis by simp
  next
    case True
    with that have top: "uint (bytes ! (nat offset + 3)) \<le> 127" by simp
    have "little_endian_sum bytes (nat offset) 3 < 2 ^ 24"
      using little_endian_sum_bound [of bytes "nat offset" 3] by simp
    with top True show ?thesis by (simp add: little_endian_sum_4)
  qed
  have high: "2 ^ 31 \<le> ?s \<and> ?s < 2 ^ 32" if "sz = 4" "128 \<le> uint (bytes ! (nat offset + 3))"
  proof -
    have "0 \<le> little_endian_sum bytes (nat offset) 3"
      using little_endian_sum_bound [of bytes "nat offset" 3] by simp
    with that bound show ?thesis by (simp add: little_endian_sum_4)
  qed
  from read bound low high show ?thesis
    by (auto simp: int32_signed_id int32_signed_wrap)
qed

theorem localRead_little_endian_witness:
  "(0::int) \<le> 0 \<and> 0 + 4 \<le> int (length [1, 2, 3, 4 :: 8 word]) \<and>
   Memory_localRead [1, 2, 3, 4] 0 4 = 67305985 \<and>
   little_endian_sum [1, 2, 3, 4] 0 4 = 67305985 \<and>
   Memory_localRead [0, 0, 0, 128] 0 4 = 2147483648 - 2 ^ 32"
proof -
  have s1: "little_endian_sum [1, 2, 3, 4] 0 4 = 67305985" "little_endian_sum [0, 0, 0, 128] 0 4 = 2147483648"
    by (simp_all add: little_endian_sum_def lessThan_nat_numeral lessThan_Suc)
  from localRead_little_endian [of 0 4 "[1, 2, 3, 4]"]
       localRead_little_endian [of 0 4 "[0, 0, 0, 128]"] s1
  show ?thesis by simp
qed


section \<open>Address ranges\<close>

lemma accepts_contained:
  assumes "0 \<le> base" "1 \<le> n" "base + n - 1 < 2 ^ 32"
    and "0 \<le> a" "1 \<le> sz" "a + sz - 1 < 2 ^ 32"
  shows "Device_accepts (Device_new base n) a sz \<longleftrightarrow> base \<le> a \<and> a + sz - 1 \<le> base + n - 1"
proof -
  have "int32_unsigned (a + sz - 1) = a + sz - 1"
    and "int32_unsigned (base + n - 1) = base + n - 1"
    and "int32_unsigned base = base"
    using assms by (simp_all add: int32_unsigned_id)
  then show ?thesis by (simp add: Device_accepts_def Device_new_def)
qed

text \<open>
  C7: \<^verbatim>\<open>accepts\<close> compares the end of the access after reducing it to 32 bits. The
  4-byte access at address 2^32 - 1, which a load at address -1 makes, ends at
  \<open>2^32 + 2\<close>, reduced to 2: the device at 0..15 accepts it although the access does not
  lie within 0..15, and the bus read returns 0 without an error. In the same way the
  device of size 0 at address 0, whose last address is reduced to 2^32 - 1, accepts the
  byte at address 5.
\<close>

theorem accepts_wraparound:
  "Device_accepts (Device_new 0 16 :: unit Device) 4294967295 4 \<and>
   firstAddress (Device_new 0 16 :: unit Device) = 0 \<and>
   lastAddress (Device_new 0 16 :: unit Device) = 15 \<and>
   \<not> (0 \<le> (4294967295 :: int) \<and> (4294967295 :: int) + 4 - 1 \<le> 15) \<and>
   fst (Bus_read (addDevice Bus_new (Memory_new 0 16 :: unit Device)) (- 1) 4 True) = 0 \<and>
   \<not> error (snd (Bus_read (addDevice Bus_new (Memory_new 0 16 :: unit Device)) (- 1) 4 True)) \<and>
   Device_accepts (Device_new 0 0 :: unit Device) 5 1 \<and>
   lastAddress (Device_new 0 0 :: unit Device) = 4294967295"
  by code_simp

section \<open>A byte written and read back\<close>

lemma find_map_same:
  assumes "\<And>x. P (f x) = P x"
  shows "find P (map f xs) = map_option f (find P xs)"
  by (induction xs) (simp_all add: assms)

lemma Device_write_accepts:
  "Device_accepts (Device_write d a sz v) a' sz' = Device_accepts d a' sz'"
  by (simp add: Device_accepts_def Device_write_def localWrite_range)

lemma Bus_read_find:
  assumes "find (\<lambda>d. Device_accepts d (int32_unsigned a) sz) (devices bs) = Some d"
  shows "fst (Bus_read bs a sz sg) = fst (Device_read d (int32_unsigned a) sz sg)"
  using getDevices_hd [OF assms] by (simp add: Bus_read_some)

lemma Bus_write_find:
  assumes "find (\<lambda>d. Device_accepts d (int32_unsigned a) sz) (devices bs) = Some d"
  shows "find (\<lambda>d. Device_accepts d (int32_unsigned a) sz) (devices (Bus_write bs a sz v)) =
     Some (Device_write d a sz v)"
proof -
  let ?P = "\<lambda>d. Device_accepts d (int32_unsigned a) sz"
  from assms have "?P d" by (auto simp: find_Some_iff)
  moreover have "find ?P (devices (Bus_write bs a sz v)) =
      map_option (\<lambda>d. if ?P d then Device_write d a sz v else d) (find ?P (devices bs))"
    unfolding Bus_write_devices
    by (rule find_map_same) (simp add: Device_write_accepts)
  ultimately show ?thesis by (simp add: assms)
qed

lemma accepted_byte_offset:
  assumes "Device_accepts ((Memory_new base n)\<lparr>sub := c\<rparr>) (int32_unsigned a) 1" and "1 \<le> n"
  shows "0 \<le> int32_unsigned a - int32_unsigned base"
    and "int32_unsigned a - int32_unsigned base < n"
    and "int32_unsigned a - int32_unsigned base < 2 ^ 32"
proof -
  define u where "u = int32_unsigned a"
  define f where "f = int32_unsigned base"
  have u: "0 \<le> u" "u < 2 ^ 32" and f: "0 \<le> f" "f < 2 ^ 32"
    using int32_unsigned_range [of a] int32_unsigned_range [of base] by (simp_all add: u_def f_def)
  have last: "int32_unsigned (base + n - 1) = (f + (n - 1)) mod 2 ^ 32"
  proof -
    have "(base + (n - 1)) mod 2 ^ 32 = (base mod 2 ^ 32 + (n - 1)) mod 2 ^ 32"
      by (rule mod_add_left_eq [symmetric])
    then show ?thesis
      unfolding int32_unsigned_mod f_def by (simp add: add_diff_eq)
  qed
  have uu: "int32_unsigned u = u" using u by (rule int32_unsigned_id)
  from assms(1) have ge: "f \<le> u" and le: "u \<le> (f + (n - 1)) mod 2 ^ 32"
    by (simp_all add: Device_accepts_def Memory_new_def Device_new_def last
        u_def [symmetric] f_def [symmetric] uu)
  show "0 \<le> int32_unsigned a - int32_unsigned base" using ge by (simp add: u_def f_def)
  show "int32_unsigned a - int32_unsigned base < 2 ^ 32" using u f by (simp add: u_def f_def)
  show "int32_unsigned a - int32_unsigned base < n"
  proof (cases "f + (n - 1) < 2 ^ 32")
    case True
    with f assms(2) have "(f + (n - 1)) mod 2 ^ 32 = f + (n - 1)"
      by (intro mod_pos_pos_trivial) simp_all
    with le show ?thesis by (simp add: u_def f_def)
  next
    case False
    with u show ?thesis by (simp add: u_def f_def)
  qed
qed


lemma unsigned_offset:
  assumes "0 \<le> int32_unsigned a - int32_unsigned base"
    and "int32_unsigned a - int32_unsigned base < 2 ^ 32"
  shows "int32_unsigned (a - int32_unsigned base) = int32_unsigned a - int32_unsigned base"
    and "int32_unsigned (int32_unsigned a - int32_unsigned base) =
         int32_unsigned a - int32_unsigned base"
proof -
  have "(a - int32_unsigned base) mod 2 ^ 32 = (a mod 2 ^ 32 - int32_unsigned base) mod 2 ^ 32"
    by (rule mod_diff_left_eq [symmetric])
  also have "\<dots> = int32_unsigned a - int32_unsigned base"
    using assms unfolding int32_unsigned_mod [of a, symmetric]
    by (intro mod_pos_pos_trivial) simp_all
  finally show "int32_unsigned (a - int32_unsigned base) = int32_unsigned a - int32_unsigned base"
    by (simp add: int32_unsigned_mod [of "a - int32_unsigned base"])
  show "int32_unsigned (int32_unsigned a - int32_unsigned base) =
      int32_unsigned a - int32_unsigned base"
    using assms by (rule int32_unsigned_id)
qed

lemma Memory_write_byte:
  assumes "0 \<le> k" "k < int (length bytes)"
  shows "Memory_localWrite bytes k 1 255 = bytes[nat k := 255]"
  using assms
  by (simp add: Memory_localWrite_def localWrite_loop.simps data_set_def int32_unsignedSlice_def)

lemma Memory_read_byte:
  assumes "0 \<le> k" "k < int (length bytes)"
  shows "Memory_localRead (bytes[nat k := 255]) k 1 = 255"
  using assms
  by (simp add: Memory_localRead_def localRead_loop.simps data_get_def js_or_def js_shl_def
      shiftCount_def ToUint32_def)

text \<open>
  C9 does not hold as stated: a read is answered by the first accepting device only.
  On a bus where a plain \<^verbatim>\<open>Device\<close>, which reads as 0, is registered before a memory
  of the same range, address 0 is accepted by the memory, and after the byte 255 is
  written there both reads return 0.
\<close>

theorem memory_byte_round_trip_counterexample:
  "devices shadow_bus = [Device_new 0 16, Memory_new 0 16] \<and>
   Device_accepts (Memory_new 0 16 :: unit Device) (int32_unsigned 0) 1 \<and>
   fst (Bus_read (Bus_write shadow_bus 0 1 255) 0 1 True) = 0 \<and>
   fst (Bus_read (Bus_write shadow_bus 0 1 255) 0 1 False) = 0"
proof -
  have "devices shadow_bus = [Device_new 0 16, Memory_new 0 16]"
    by (simp add: shadow_bus_def addDevice_def Bus_new_def)
  moreover have "Device_accepts (Memory_new 0 16 :: unit Device) (int32_unsigned 0) 1"
    by code_simp
  moreover have "fst (Bus_read (Bus_write shadow_bus 0 1 255) 0 1 True) = 0"
    by code_simp
  moreover have "fst (Bus_read (Bus_write shadow_bus 0 1 255) 0 1 False) = 0"
    by code_simp
  ultimately show ?thesis by simp
qed

text \<open>
  C9, amended: when the first device of the bus that accepts the byte at address \<open>a\<close>
  is a memory built by the constructor of \<^verbatim>\<open>Memory\<close> with a size of at least 1,
  whatever its contents, then after a 1-byte bus write of 255 at \<open>a\<close> the signed
  1-byte bus read at \<open>a\<close> returns -1 and the unsigned one returns 255.
\<close>

theorem memory_byte_round_trip:
  fixes bs :: "'s Bus"
  assumes "find (\<lambda>d. Device_accepts d (int32_unsigned a) 1) (devices bs) =
             Some ((Memory_new base n)\<lparr>sub := Memory bytes\<rparr>)"
    and "int (length bytes) = n" and "1 \<le> n"
  shows "fst (Bus_read (Bus_write bs a 1 255) a 1 True) = - 1 \<and>
         fst (Bus_read (Bus_write bs a 1 255) a 1 False) = 255"
proof -
  define k where "k = int32_unsigned a - int32_unsigned base"
  define d where "d = the (find (\<lambda>d. Device_accepts d (int32_unsigned a) 1) (devices bs))"
  have d: "d = (Memory_new base n)\<lparr>sub := Memory bytes\<rparr>"
    and first: "find (\<lambda>d. Device_accepts d (int32_unsigned a) 1) (devices bs) = Some d"
    by (simp_all add: d_def assms(1))
  from first have "Device_accepts d (int32_unsigned a) 1"
    by (auto simp: find_Some_iff)
  then have acc: "Device_accepts ((Memory_new base n :: 's Device)\<lparr>sub := Memory bytes\<rparr>)
      (int32_unsigned a) 1"
    by (simp add: d)
  note off = accepted_byte_offset [OF acc assms(3), folded k_def]
  have k: "0 \<le> k" "k < int (length bytes)" using off assms(2) by simp_all
  have base: "firstAddress d = int32_unsigned base" and mem: "sub d = Memory bytes"
    by (simp_all add: d Memory_new_def Device_new_def)
  have wr: "int32_unsigned (a - int32_unsigned base) = k"
    and rd: "int32_unsigned (int32_unsigned a - int32_unsigned base) = k"
    using unsigned_offset [of a base] off by (simp_all add: k_def)
  have written: "Device_write d a 1 255 = d\<lparr>sub := Memory (bytes[nat k := 255])\<rparr>"
    by (simp add: Device_write_def localWrite_def base mem wr Memory_write_byte [OF k])
  have raw: "localRead (d\<lparr>sub := Memory (bytes[nat k := 255])\<rparr>) k 1 =
      (255, d\<lparr>sub := Memory (bytes[nat k := 255])\<rparr>)"
    by (simp add: localRead_def Memory_read_byte [OF k])
  have "fst (Bus_read (Bus_write bs a 1 255) a 1 sg) =
      fst (Device_read (Device_write d a 1 255) (int32_unsigned a) 1 sg)" for sg
    by (rule Bus_read_find [OF Bus_write_find [OF first]])
  moreover have "fst (Device_read (Device_write d a 1 255) (int32_unsigned a) 1 True) = - 1"
    unfolding written by (simp add: Device_read_def base rd raw int32_signedSlice_def)
  moreover have "fst (Device_read (Device_write d a 1 255) (int32_unsigned a) 1 False) = 255"
    unfolding written by (simp add: Device_read_def base rd raw int32_unsignedSlice_def)
  ultimately show ?thesis by simp
qed

theorem memory_byte_round_trip_witness:
  "find (\<lambda>d. Device_accepts d (int32_unsigned 5) 1) (devices demo_bus) =
     Some ((Memory_new 0 8)\<lparr>sub := Memory [231, 0, 160, 0, 115, 0, 32, 48]\<rparr>) \<and>
   fst (Bus_read (Bus_write demo_bus 5 1 255) 5 1 True) = - 1 \<and>
   fst (Bus_read (Bus_write demo_bus 5 1 255) 5 1 False) = 255"
proof -
  have h: "find (\<lambda>d. Device_accepts d (int32_unsigned 5) 1) (devices demo_bus) =
     Some ((Memory_new 0 8)\<lparr>sub := Memory [231, 0, 160, 0, 115, 0, 32, 48]\<rparr>)"
    by (simp add: demo_bus_eq Device_accepts_def int32_unsigned_def Memory_new_def Device_new_def)
  from memory_byte_round_trip [OF h] h show ?thesis by simp
qed


end
